theory Spec2Isabelle
  imports Complex_Main "HOL-Library.Sublist"
begin

section \<open>The playlist bot of \<^verbatim>\<open>mastodonBot.ts\<close>\<close>

text \<open>
  The program reads a list of playlist records from a JSON file, picks one of the records
  with the lowest posted count, formats a status text, posts it to Mastodon and counts the
  post in the record. The embedding follows the three classes of the source:
  \<^verbatim>\<open>PlaylistDatabase\<close>, \<^verbatim>\<open>MastodonClient\<close> and \<^verbatim>\<open>PlaylistBot\<close>.

  Conventions of the model:
  \<^item> a JavaScript string is a \<open>string\<close>; the string operations are written over lists of
    any element type, so they do not depend on what a character is;
  \<^item> \<^verbatim>\<open>posted_count\<close> is an optional \<open>int\<close>: the counts are JavaScript numbers with an
    integer value. A JavaScript number is a double, so an addition is rounded to the nearest
    double (\<open>number_add\<close> below); it is exact up to \<open>2^53\<close> only. \<^verbatim>\<open>Math.min()\<close> of no
    arguments is \<^verbatim>\<open>Infinity\<close>, which the type \<open>number\<close> below keeps;
  \<^item> an \<^verbatim>\<open>async\<close> method is a function from the world before the call to a result and the
    world after it; a rejected promise or a \<^verbatim>\<open>throw\<close> is the result \<open>Inl error\<close>;
  \<^item> everything the program does to the outside is appended to a trace of events.
\<close>

subsection \<open>Data\<close>

record PlaylistEntry =
  name :: string
  uri :: string
  imageUrl :: string
  artistNames :: "string list"
  posted_count :: "int option"

record Database =
  playlists :: "PlaylistEntry list"

datatype error =
    DatabaseNotLoaded
  | ConfigurationError
  | StoreUnavailable
  | StoreWriteError
  | PublishRejected
  | RangeError

datatype number = Infinity | Num int

datatype event =
    AdapterRead
  | AdapterWrite Database
  | StatusesCreate string
  | ConsoleLog "string list"
  | ConsoleError "string list" error

text \<open>
  What one run of the process is given from outside: the environment variables and the
  command line, the number of arguments the JavaScript engine accepts in one call, what
  \<^verbatim>\<open>Math.random()\<close> returns, and how the three calls that leave the process end (reading
  the file, creating the status, writing the file).
\<close>

record outside =
  MASTODON_URL :: "string option"
  MASTODON_ACCESS_TOKEN :: "string option"
  argv :: "string list"
  argument_limit :: nat
  read_failure :: "error option"
  Math_random :: real
  create_result :: "error + string option"
  write_failure :: "error option"

text \<open>
  The world: the contents of \<^verbatim>\<open>playlists_database.json\<close> (\<open>None\<close> when the file does not
  exist), the field \<^verbatim>\<open>data\<close> of the \<^verbatim>\<open>Low\<close> object, and the trace.
\<close>

record world =
  json_file :: "Database option"
  data :: "Database option"
  trace :: "event list"

subsection \<open>JavaScript library functions\<close>

text \<open>
  \<^verbatim>\<open>Math.min(...xs)\<close>: the spread passes every element of the array as one argument of the
  call. An engine accepts only so many arguments; with more, the call throws a
  \<^verbatim>\<open>RangeError\<close>. \<open>least\<close> is what \<^verbatim>\<open>Math.min\<close> returns for the arguments it is given.
\<close>

fun least :: "int list \<Rightarrow> number" where
  "least [] = Infinity"
| "least (x # xs) = (case least xs of Infinity \<Rightarrow> Num x | Num m \<Rightarrow> Num (min x m))"

definition Math_min :: "nat \<Rightarrow> int list \<Rightarrow> error + number" where
  "Math_min limit xs = (if limit < length xs then Inl RangeError else Inr (least xs))"

text \<open>
  \<^verbatim>\<open>a + b\<close> for two numbers with integer values. The sum is rounded to the nearest double:
  a double keeps 53 binary digits, so beyond \<open>2^53\<close> only the multiples of \<open>ulp\<close> (a power
  of two) are doubles, and the sum goes to the nearest of them, to the one with the even
  quotient when two are equally near.
\<close>

fun ulp :: "nat \<Rightarrow> nat" where
  "ulp a = (if a < 2 ^ 53 then 1 else 2 * ulp (a div 2))"

declare ulp.simps [simp del]

definition round_nat :: "nat \<Rightarrow> nat" where
  "round_nat a =
     (let u = ulp a; q = a div u; r = a mod u
      in (if u < 2 * r \<or> (u = 2 * r \<and> odd q) then q + 1 else q) * u)"

definition round_double :: "int \<Rightarrow> int" where
  "round_double n = sgn n * int (round_nat (nat \<bar>n\<bar>))"

definition number_add :: "int \<Rightarrow> int \<Rightarrow> int" where
  "number_add a b = round_double (a + b)"

text \<open>\<^verbatim>\<open>xs.find(P)\<close>, as the position of the element found: the source updates it in place.\<close>

fun find_index :: "('a \<Rightarrow> bool) \<Rightarrow> 'a list \<Rightarrow> nat option" where
  "find_index P [] = None"
| "find_index P (x # xs) =
     (if P x then Some 0 else (case find_index P xs of None \<Rightarrow> None | Some i \<Rightarrow> Some (Suc i)))"

text \<open>\<^verbatim>\<open>s.split(sep)\<close> for a separator of one character; the result is never empty.\<close>

fun str_split :: "'a \<Rightarrow> 'a list \<Rightarrow> 'a list list" where
  "str_split sep [] = [[]]"
| "str_split sep (c # cs) =
     (if c = sep then [] # str_split sep cs
      else (case str_split sep cs of [] \<Rightarrow> [[c]] | w # ws \<Rightarrow> (c # w) # ws))"

text \<open>\<^verbatim>\<open>xs.pop()\<close>: the last element, \<^verbatim>\<open>undefined\<close> for the empty array.\<close>

definition pop :: "'a list \<Rightarrow> 'a option" where
  "pop xs = (if xs = [] then None else Some (last xs))"

text \<open>\<^verbatim>\<open>xs.join(sep)\<close>\<close>

fun join :: "'a list \<Rightarrow> 'a list list \<Rightarrow> 'a list" where
  "join sep [] = []"
| "join sep [x] = x"
| "join sep (x # y # ys) = x @ sep @ join sep (y # ys)"

text \<open>\<^verbatim>\<open>s.replace(pat, rep)\<close> for a string pattern: the first occurrence only.\<close>

fun replace :: "'a list \<Rightarrow> 'a list \<Rightarrow> 'a list \<Rightarrow> 'a list" where
  "replace [] pat rep = (if pat = [] then rep else [])"
| "replace (c # cs) pat rep =
     (if prefix pat (c # cs) then rep @ drop (length pat) (c # cs)
      else c # replace cs pat rep)"

text \<open>\<^verbatim>\<open>console.log\<close> and \<^verbatim>\<open>console.error\<close>\<close>

definition console_log :: "string list \<Rightarrow> world \<Rightarrow> world" where
  "console_log args w = w\<lparr>trace := trace w @ [ConsoleLog args]\<rparr>"

definition console_error :: "string list \<Rightarrow> error \<Rightarrow> world \<Rightarrow> world" where
  "console_error args e w = w\<lparr>trace := trace w @ [ConsoleError args e]\<rparr>"

subsection \<open>The lowdb object\<close>

text \<open>
  Modelled from the spec: the methods \<^verbatim>\<open>read\<close> and \<^verbatim>\<open>write\<close> of the \<^verbatim>\<open>Low\<close> object of the
  lowdb package, which is not part of the source. \<^verbatim>\<open>read\<close> loads the whole file into
  \<^verbatim>\<open>data\<close>, keeps the default data when there is no file yet, and fails when the file
  cannot be read or parsed. \<^verbatim>\<open>write\<close> replaces the file by \<^verbatim>\<open>data\<close> in one step, or
  fails and leaves the file as it was.
\<close>

definition Low_read :: "outside \<Rightarrow> world \<Rightarrow> (error + unit) \<times> world" where
  "Low_read env w =
     (let w1 = w\<lparr>trace := trace w @ [AdapterRead]\<rparr> in
      case read_failure env of
        Some e \<Rightarrow> (Inl e, w1)
      | None \<Rightarrow> (case json_file w of
                  None \<Rightarrow> (Inr (), w1)
                | Some d \<Rightarrow> (Inr (), w1\<lparr>data := Some d\<rparr>)))"

definition Low_write :: "outside \<Rightarrow> world \<Rightarrow> (error + unit) \<times> world" where
  "Low_write env w =
     (case data w of
        None \<Rightarrow> (Inr (), w)
      | Some d \<Rightarrow>
          (let w1 = w\<lparr>trace := trace w @ [AdapterWrite d]\<rparr> in
           case write_failure env of
             Some e \<Rightarrow> (Inl e, w1)
           | None \<Rightarrow> (Inr (), w1\<lparr>json_file := Some d\<rparr>)))"

subsection \<open>PlaylistDatabase\<close>

definition PlaylistDatabase_new :: "world \<Rightarrow> world" where
  "PlaylistDatabase_new w = w\<lparr>data := Some \<lparr>playlists = []\<rparr>\<rparr>"

definition PlaylistDatabase_read :: "outside \<Rightarrow> world \<Rightarrow> (error + unit) \<times> world" where
  "PlaylistDatabase_read env w = Low_read env w"

definition PlaylistDatabase_write :: "outside \<Rightarrow> world \<Rightarrow> (error + unit) \<times> world" where
  "PlaylistDatabase_write env w = Low_write env w"

text \<open>\<^verbatim>\<open>p.posted_count ?? 0\<close>\<close>

definition posted_count_or_0 :: "PlaylistEntry \<Rightarrow> int" where
  "posted_count_or_0 p = (case posted_count p of None \<Rightarrow> 0 | Some c \<Rightarrow> c)"

text \<open>
  \<^verbatim>\<open>candidatePlaylists[Math.floor(Math.random() * candidatePlaylists.length)] || null\<close>:
  an index outside the array reads \<^verbatim>\<open>undefined\<close>, which becomes \<^verbatim>\<open>null\<close>.
\<close>

definition getLowestPostedCountPlaylist ::
    "nat \<Rightarrow> real \<Rightarrow> world \<Rightarrow> error + PlaylistEntry option" where
  "getLowestPostedCountPlaylist limit rnd w =
     (case data w of
        None \<Rightarrow> Inl DatabaseNotLoaded
      | Some d \<Rightarrow>
          (case Math_min limit (map posted_count_or_0 (playlists d)) of
             Inl e \<Rightarrow> Inl e
           | Inr minPostedCount \<Rightarrow>
               (let candidatePlaylists =
                      filter (\<lambda>p. Num (posted_count_or_0 p) = minPostedCount) (playlists d);
                    i = \<lfloor>rnd * real (length candidatePlaylists)\<rfloor>
                in Inr (if 0 \<le> i \<and> i < int (length candidatePlaylists)
                        then Some (candidatePlaylists ! nat i) else None))))"

definition incrementPostedCount :: "string \<Rightarrow> outside \<Rightarrow> world \<Rightarrow> (error + unit) \<times> world" where
  "incrementPostedCount playlistUri env w =
     (case data w of
        None \<Rightarrow> (Inl DatabaseNotLoaded, w)
      | Some d \<Rightarrow>
          (case find_index (\<lambda>p. uri p = playlistUri) (playlists d) of
             None \<Rightarrow> (Inr (), w)
           | Some i \<Rightarrow>
               (let playlist = playlists d ! i;
                    playlist' = playlist\<lparr>posted_count :=
                                  Some (number_add (posted_count_or_0 playlist) 1)\<rparr>
                in PlaylistDatabase_write env (w\<lparr>data := Some (d\<lparr>playlists := (playlists d)[i := playlist']\<rparr>)\<rparr>))))"

subsection \<open>MastodonClient\<close>

text \<open>
  \<^verbatim>\<open>create_result\<close> is what \<^verbatim>\<open>client.v1.statuses.create\<close> of the masto package answers:
  an error, or the id of the status (\<open>None\<close> when the answer has none).
\<close>

definition createStatus :: "string \<Rightarrow> outside \<Rightarrow> world \<Rightarrow> (error + string) \<times> world" where
  "createStatus status env w =
     (let w1 = w\<lparr>trace := trace w @ [StatusesCreate status]\<rparr> in
      case create_result env of
        Inl e \<Rightarrow> (Inl e, w1)
      | Inr postedStatus \<Rightarrow> (Inr (case postedStatus of None \<Rightarrow> [] | Some i \<Rightarrow> i), w1))"

subsection \<open>PlaylistBot\<close>

text \<open>\<^verbatim>\<open>!s\<close> for an environment variable: unset or empty.\<close>

definition unset :: "string option \<Rightarrow> bool" where
  "unset s = (case s of None \<Rightarrow> True | Some v \<Rightarrow> v = [])"

definition PlaylistBot_new :: "outside \<Rightarrow> world \<Rightarrow> (error + unit) \<times> world" where
  "PlaylistBot_new env w =
     (let w1 = PlaylistDatabase_new w in
      if unset (MASTODON_URL env) \<or> unset (MASTODON_ACCESS_TOKEN env)
      then (Inl ConfigurationError, w1) else (Inr (), w1))"

text \<open>The four local constants of \<^verbatim>\<open>postRandomPlaylist\<close>.\<close>

definition artists :: "PlaylistEntry \<Rightarrow> string" where
  "artists playlist = join '', '' (take 3 (artistNames playlist))"

definition urlFromUri :: "PlaylistEntry \<Rightarrow> string" where
  "urlFromUri playlist =
     ''https://open.spotify.com/playlist/'' @
     (case pop (str_split (CHR '':'') (uri playlist)) of None \<Rightarrow> ''undefined'' | Some s \<Rightarrow> s)"

definition cleanName :: "PlaylistEntry \<Rightarrow> string" where
  "cleanName playlist = replace (name playlist) '' Mix'' []"

definition statusText :: "PlaylistEntry \<Rightarrow> string" where
  "statusText playlist =
     cleanName playlist @ [CHR 0x0A] @ ''Featuring '' @ artists playlist @ [CHR 0x0A, CHR 0x0A]
     @ urlFromUri playlist"

definition postRandomPlaylist :: "bool \<Rightarrow> outside \<Rightarrow> world \<Rightarrow> (error + unit) \<times> world" where
  "postRandomPlaylist dryRun env w =
     (case PlaylistDatabase_read env w of
        (Inl e, w1) \<Rightarrow> (Inl e, w1)
      | (Inr _, w1) \<Rightarrow>
          (case getLowestPostedCountPlaylist (argument_limit env) (Math_random env) w1 of
             Inl e \<Rightarrow> (Inl e, w1)
           | Inr None \<Rightarrow> (Inr (), console_log [''No playlists available to post.''] w1)
           | Inr (Some playlist) \<Rightarrow>
               if dryRun then
                 (Inr (), console_log [''--- END DRY RUN ---'']
                            (console_log [''Status Text:'', statusText playlist]
                              (console_log [''--- DRY RUN ---''] w1)))
               else
                 (case createStatus (statusText playlist) env w1 of
                    (Inl e, w2) \<Rightarrow> (Inr (), console_error [''Error posting to Mastodon:''] e w2)
                  | (Inr statusId, w2) \<Rightarrow>
                      (case incrementPostedCount (uri playlist) env
                              (console_log [''Posted successfully:'', statusId] w2) of
                         (Inl e, w3) \<Rightarrow>
                           (Inr (), console_error [''Error posting to Mastodon:''] e w3)
                       | (Inr _, w3) \<Rightarrow> (Inr (), w3)))))"

text \<open>\<^verbatim>\<open>main\<close>, and the last line of the file, \<^verbatim>\<open>main().catch(console.error)\<close>.\<close>

definition main :: "outside \<Rightarrow> world \<Rightarrow> (error + unit) \<times> world" where
  "main env w =
     (case PlaylistBot_new env w of
        (Inl e, w1) \<Rightarrow> (Inl e, w1)
      | (Inr _, w1) \<Rightarrow> postRandomPlaylist (''--dry-run'' \<in> set (argv env)) env w1)"

definition toplevel :: "outside \<Rightarrow> world \<Rightarrow> world" where
  "toplevel env w =
     (case main env w of
        (Inl e, w1) \<Rightarrow> console_error [] e w1
      | (Inr _, w1) \<Rightarrow> w1)"

text \<open>
  The process is started again and again by a scheduler; each start is one \<open>toplevel\<close>
  with its own outside, on the world the start before left.
\<close>

fun invocations :: "outside list \<Rightarrow> world \<Rightarrow> world" where
  "invocations [] w = w"
| "invocations (env # envs) w = invocations envs (toplevel env w)"

subsection \<open>What a run is observed by\<close>

text \<open>
  The events that reach the store and the publisher, the records of the file, and two
  relations between the records before and after some runs: \<open>same_records\<close>, the same
  number of records, each one changed in its \<^verbatim>\<open>posted_count\<close> at most; and \<open>grown\<close>, which
  adds that no effective count is lower than before.
\<close>

definition is_write :: "event \<Rightarrow> bool" where
  "is_write ev = (case ev of AdapterWrite _ \<Rightarrow> True | _ \<Rightarrow> False)"

definition is_publish :: "event \<Rightarrow> bool" where
  "is_publish ev = (case ev of StatusesCreate _ \<Rightarrow> True | _ \<Rightarrow> False)"

definition records :: "world \<Rightarrow> PlaylistEntry list" where
  "records w = (case json_file w of None \<Rightarrow> [] | Some d \<Rightarrow> playlists d)"

definition same_records :: "PlaylistEntry list \<Rightarrow> PlaylistEntry list \<Rightarrow> bool" where
  "same_records ps ps' \<longleftrightarrow> length ps' = length ps \<and>
     (\<forall>i<length ps. ps' ! i = (ps ! i)\<lparr>posted_count := posted_count (ps' ! i)\<rparr>)"

definition grown :: "PlaylistEntry list \<Rightarrow> PlaylistEntry list \<Rightarrow> bool" where
  "grown ps ps' \<longleftrightarrow> same_records ps ps' \<and>
     (\<forall>i<length ps. posted_count_or_0 (ps ! i) \<le> posted_count_or_0 (ps' ! i))"

text \<open>
  An integer that is a double: rounding leaves it as it is. Every count that
  \<^verbatim>\<open>JSON.parse\<close> delivers with an integer value is one; \<open>doubles\<close> says so of a list of
  records.
\<close>

definition is_double :: "int \<Rightarrow> bool" where
  "is_double c \<longleftrightarrow> round_double c = c"

definition doubles :: "PlaylistEntry list \<Rightarrow> bool" where
  "doubles ps \<longleftrightarrow> (\<forall>p\<in>set ps. is_double (posted_count_or_0 p))"

subsection \<open>Example data\<close>

definition playlist_a :: PlaylistEntry where
  "playlist_a = \<lparr>name = ''Rock Mix'', uri = ''a'', imageUrl = [], artistNames = [''R'', ''S''],
                  posted_count = Some 2\<rparr>"

definition playlist_b :: PlaylistEntry where
  "playlist_b = \<lparr>name = ''Focus Mix'', uri = ''b'', imageUrl = [],
                  artistNames = [''A'', ''B'', ''C'', ''D''], posted_count = None\<rparr>"

definition playlist_c :: PlaylistEntry where
  "playlist_c = \<lparr>name = ''Daily Mix 1'', uri = ''c'', imageUrl = [], artistNames = [],
                  posted_count = Some 1\<rparr>"

text \<open>A record whose count is \<open>2^53\<close>, and a record whose count is negative.\<close>

definition playlist_big :: PlaylistEntry where
  "playlist_big = \<lparr>name = ''Chill Mix'', uri = ''big'', imageUrl = [], artistNames = [''E''],
                    posted_count = Some 9007199254740992\<rparr>"

definition playlist_neg :: PlaylistEntry where
  "playlist_neg = \<lparr>name = ''Jazz Mix'', uri = ''neg'', imageUrl = [], artistNames = [''F''],
                    posted_count = Some (- 5)\<rparr>"

definition scenario_A :: Database where
  "scenario_A = \<lparr>playlists = [playlist_a, playlist_b, playlist_c]\<rparr>"

definition env_ok :: outside where
  "env_ok = \<lparr>MASTODON_URL = Some ''https://mastodon.example'',
              MASTODON_ACCESS_TOKEN = Some ''token'',
              argv = [''node'', ''mastodonBot.js''], argument_limit = 100000,
              read_failure = None, Math_random = 1 / 2,
              create_result = Inr (Some ''110''), write_failure = None\<rparr>"

text \<open>The world when \<^verbatim>\<open>postRandomPlaylist\<close> starts, and the same world after the read.\<close>

definition world_A :: world where
  "world_A = \<lparr>json_file = Some scenario_A, data = Some \<lparr>playlists = []\<rparr>, trace = []\<rparr>"

definition world_A_loaded :: world where
  "world_A_loaded = \<lparr>json_file = Some scenario_A, data = Some scenario_A, trace = [AdapterRead]\<rparr>"

text \<open>The world in which \<^verbatim>\<open>postRandomPlaylist\<close> starts on a file that holds \<open>d\<close>.\<close>

definition world_of :: "Database \<Rightarrow> world" where
  "world_of d = \<lparr>json_file = Some d, data = Some \<lparr>playlists = []\<rparr>, trace = []\<rparr>"

lemmas ex_defs = playlist_a_def playlist_b_def playlist_c_def scenario_A_def env_ok_def
  world_A_def world_A_loaded_def world_of_def playlist_big_def playlist_neg_def

lemmas run_defs = toplevel_def main_def PlaylistBot_new_def PlaylistDatabase_new_def unset_def
  postRandomPlaylist_def PlaylistDatabase_read_def Low_read_def getLowestPostedCountPlaylist_def
  Math_min_def
  posted_count_or_0_def createStatus_def console_log_def console_error_def
  incrementPostedCount_def PlaylistDatabase_write_def Low_write_def Let_def

section \<open>Properties\<close>

subsection \<open>Adding in doubles\<close>

text \<open>
  \<open>ulp a\<close> is a power of two with \<open>a < 2^53 * ulp a\<close>, and the least such one; a natural
  number is a double exactly when \<open>ulp\<close> divides it. Rounding is idempotent, exact up to
  \<open>2^53\<close>, and the sum of a double and one, rounded, is not below the double.
\<close>

lemma ulp_pos: "0 < ulp a"
  by (induction a rule: ulp.induct) (subst ulp.simps, simp)

lemma ulp_small: "a < 2 ^ 53 \<Longrightarrow> ulp a = 1"
  by (subst ulp.simps) simp

lemma ulp_large: "\<not> a < 2 ^ 53 \<Longrightarrow> ulp a = 2 * ulp (a div 2)"
  by (subst ulp.simps) simp

lemma ulp_upper: "a < 2 ^ 53 * ulp a"
proof (induction a rule: ulp.induct)
  case (1 a)
  show ?case
  proof (cases "a < 2 ^ 53")
    case True
    then show ?thesis by (simp add: ulp_small)
  next
    case False
    from 1[OF False] have "a div 2 < 2 ^ 53 * ulp (a div 2)" .
    then have "a < 2 * (2 ^ 53 * ulp (a div 2))" by linarith
    then show ?thesis by (simp add: ulp_large[OF False])
  qed
qed

lemma ulp_lower: "1 < ulp a \<Longrightarrow> 2 ^ 52 * ulp a \<le> a"
proof (induction a rule: ulp.induct)
  case (1 a)
  show ?case
  proof (cases "a < 2 ^ 53")
    case True
    with 1(2) show ?thesis by (simp add: ulp_small)
  next
    case False
    show ?thesis
    proof (cases "1 < ulp (a div 2)")
      case True
      from 1(1)[OF False True] have "2 ^ 52 * ulp (a div 2) \<le> a div 2" .
      then have "2 * (2 ^ 52 * ulp (a div 2)) \<le> a" by linarith
      then show ?thesis by (simp add: ulp_large[OF False])
    next
      case F2: False
      with ulp_pos[of "a div 2"] have "ulp (a div 2) = 1" by linarith
      then show ?thesis using False by (simp add: ulp_large[OF False])
    qed
  qed
qed

lemma ulp_unique:
  assumes "a < 2 ^ 53 * 2 ^ e" "e = 0 \<or> 2 ^ 52 * 2 ^ e \<le> a"
  shows "ulp a = 2 ^ e"
  using assms
proof (induction e arbitrary: a)
  case 0
  then show ?case by (simp add: ulp_small)
next
  case (Suc e)
  from Suc.prems(2) have lo: "2 ^ 53 * 2 ^ e \<le> a" by simp
  then have big: "\<not> a < 2 ^ 53" 
    by (metis leD le_trans mult.right_neutral mult_le_mono2 one_le_numeral one_le_power)
  have "2 ^ 52 * 2 ^ e \<le> a div 2"
  proof -
    have "2 * (2 ^ 52 * 2 ^ e) \<le> a" using lo by simp
    then show ?thesis by linarith
  qed
  then have "e = 0 \<or> 2 ^ 52 * 2 ^ e \<le> a div 2" by simp
  moreover have "a div 2 < 2 ^ 53 * 2 ^ e" using Suc.prems(1) by simp
  ultimately have "ulp (a div 2) = 2 ^ e" using Suc.IH by blast
  then show ?case by (simp add: ulp_large[OF big])
qed

lemma ulp_power: "\<exists>e. ulp a = 2 ^ e"
proof (induction a rule: ulp.induct)
  case (1 a)
  show ?case
  proof (cases "a < 2 ^ 53")
    case True
    then have "ulp a = 2 ^ 0" by (simp add: ulp_small)
    then show ?thesis by blast
  next
    case False
    from 1[OF False] obtain e where "ulp (a div 2) = 2 ^ e" by blast
    then have "ulp a = 2 ^ Suc e" by (simp add: ulp_large[OF False])
    then show ?thesis by blast
  qed
qed

lemma ulp_dvd_mono: "a \<le> b \<Longrightarrow> ulp a dvd ulp b"
proof (induction a arbitrary: b rule: ulp.induct)
  case (1 a)
  show ?case
  proof (cases "a < 2 ^ 53")
    case True
    then show ?thesis by (simp add: ulp_small)
  next
    case False
    with 1(2) have b: "\<not> b < 2 ^ 53" by simp
    from 1(2) have "a div 2 \<le> b div 2" by (rule div_le_mono)
    from 1(1)[OF False this] show ?thesis
      by (simp add: ulp_large[OF False] ulp_large[OF b])
  qed
qed

lemma round_nat_bounds:
  "(a div ulp a) * ulp a \<le> round_nat a \<and> round_nat a \<le> (a div ulp a + 1) * ulp a"
  by (simp add: round_nat_def Let_def)

lemma round_nat_dvd: "ulp a dvd a \<Longrightarrow> round_nat a = a"
  using ulp_pos[of a] by (auto simp: round_nat_def Let_def)

lemma dvd_round_nat: "ulp a dvd round_nat a"
  by (simp add: round_nat_def Let_def)

lemma round_nat_fix_iff: "round_nat a = a \<longleftrightarrow> ulp a dvd a"
  using round_nat_dvd[of a] dvd_round_nat[of a] by auto

lemma round_nat_exact: "a \<le> 2 ^ 53 \<Longrightarrow> round_nat a = a"
proof (cases "a < 2 ^ 53")
  case True
  then show ?thesis by (simp add: round_nat_dvd ulp_small)
next
  case False
  assume "a \<le> 2 ^ 53"
  with False have a: "a = 2 ^ 53" by simp
  have "ulp a = 2 ^ 1" by (rule ulp_unique) (simp_all add: a)
  then show ?thesis by (intro round_nat_dvd) (simp add: a)
qed

lemma round_nat_idem: "round_nat (round_nat a) = round_nat a"
proof -
  obtain e where e: "ulp a = 2 ^ e" using ulp_power by blast
  define v where "v = round_nat a"
  define q where "q = a div ulp a"
  have qlt: "q < 2 ^ 53" unfolding q_def using ulp_upper[of a] ulp_pos[of a]
    by (simp add: less_mult_imp_div_less mult.commute)
  have vb: "q * 2 ^ e \<le> v" "v \<le> (q + 1) * 2 ^ e" and vd: "2 ^ e dvd v"
    using round_nat_bounds[of a] dvd_round_nat[of a] by (simp_all add: v_def q_def e)
  have "ulp v dvd v"
  proof (cases "e = 0")
    case True
    then have "a < 2 ^ 53" using ulp_upper[of a] e by simp
    then have "v < 2 ^ 53" by (simp add: v_def round_nat_exact)
    then show ?thesis by (simp add: ulp_small)
  next
    case False
    then have "(1::nat) < 2 ^ e" by (intro one_less_power) simp_all
    then have "1 < ulp a" by (simp only: e)
    from ulp_lower[OF this] have "2 ^ 52 * 2 ^ e \<le> a" by (simp add: e)
    then have "2 ^ 52 \<le> q" unfolding q_def e
      by (metis div_le_mono nonzero_mult_div_cancel_right power_not_zero zero_neq_numeral)
    then have lo: "2 ^ 52 * 2 ^ e \<le> v" using vb(1)
      by (meson le_trans mult_le_mono1)
    from vd obtain m where m: "v = 2 ^ e * m" by (auto simp: dvd_def)
    have "2 ^ e * m \<le> 2 ^ e * (q + 1)" using vb(2) unfolding m by (simp only: mult.commute)
    then have "m \<le> q + 1" by (simp only: mult_le_cancel1) simp
    with qlt have mle: "m \<le> 2 ^ 53" by simp
    show ?thesis
    proof (cases "m < 2 ^ 53")
      case True
      then have "v < 2 ^ 53 * 2 ^ e" unfolding m by simp
      with lo False have "ulp v = 2 ^ e" by (intro ulp_unique) auto
      with vd show ?thesis by simp
    next
      case F: False
      with mle have "m = 2 ^ 53" by simp
      then have v: "v = 2 ^ 52 * 2 ^ Suc e" unfolding m by simp
      have "ulp v = 2 ^ Suc e" by (rule ulp_unique) (simp_all add: v)
      then show ?thesis by (simp add: v)
    qed
  qed
  then show ?thesis unfolding v_def by (rule round_nat_dvd)
qed

lemma round_nat_Suc_ge:
  assumes "round_nat c = c"
  shows "c \<le> round_nat (Suc c)"
proof -
  define u where "u = ulp (Suc c)"
  have cd: "ulp c dvd c" using assms by (simp add: round_nat_fix_iff)
  have up: "0 < u" by (simp add: u_def ulp_pos)
  have "u dvd c \<or> u dvd Suc c"
  proof (cases "ulp c = u")
    case True
    with cd show ?thesis by simp
  next
    case False
    have d: "ulp c dvd u" unfolding u_def by (rule ulp_dvd_mono) simp
    then obtain k where k: "u = ulp c * k" by (auto simp: dvd_def)
    with False up have "2 \<le> k" by (cases k) (auto simp: Suc_le_eq intro: Suc_lessI)
    then have two: "2 * ulp c \<le> u" unfolding k by (simp add: mult.commute)
    then have "1 < u" using ulp_pos[of c] by linarith
    from ulp_lower[OF this[unfolded u_def]] have lo: "2 ^ 52 * u \<le> Suc c" by (simp add: u_def)
    have "2 ^ 52 * (2 * ulp c) \<le> 2 ^ 52 * u" using two by (rule mult_le_mono2)
    then have "2 ^ 53 * ulp c \<le> 2 ^ 52 * u" by simp
    moreover have "Suc c \<le> 2 ^ 53 * ulp c" using ulp_upper[of c] by simp
    ultimately have "Suc c = 2 ^ 52 * u" using lo by linarith
    then show ?thesis by simp
  qed
  then have "c \<le> (Suc c div u) * u"
  proof
    assume "u dvd c"
    then obtain m where m: "c = u * m" by (auto simp: dvd_def)
    have "m = (u * m) div u" using up by simp
    also have "\<dots> \<le> Suc (u * m) div u" by (rule div_le_mono) simp
    finally have "m \<le> Suc c div u" unfolding m .
    then show ?thesis unfolding m[symmetric] using m by (metis mult.commute mult_le_mono1)
  next
    assume "u dvd Suc c"
    then show ?thesis by simp
  qed
  with round_nat_bounds[of "Suc c"] show ?thesis by (simp add: u_def)
qed

lemma round_nat_pred_le:
  assumes "round_nat c = c" "a < c"
  shows "round_nat a \<le> c"
proof -
  define u where "u = ulp a"
  have up: "0 < u" by (simp add: u_def ulp_pos)
  have "ulp a dvd ulp c" using assms(2) by (intro ulp_dvd_mono) simp
  moreover have "ulp c dvd c" using assms(1) by (simp add: round_nat_fix_iff)
  ultimately have "u dvd c" unfolding u_def by (rule dvd_trans)
  then obtain m where m: "c = u * m" by (auto simp: dvd_def)
  have "a div u < m"
  proof (rule ccontr)
    assume "\<not> a div u < m"
    then have "m \<le> a div u" by simp
    then have "u * m \<le> u * (a div u)" by (rule mult_le_mono2)
    also have "\<dots> \<le> a" by simp
    finally show False using assms(2) m by simp
  qed
  then have "a div u + 1 \<le> m" by simp
  then have "(a div u + 1) * u \<le> m * u" by (rule mult_le_mono1)
  with round_nat_bounds[of a] show ?thesis by (simp add: u_def m mult.commute)
qed

lemma round_nat_pos: "0 < a \<Longrightarrow> 0 < round_nat a"
proof (rule ccontr)
  assume a: "0 < a" and "\<not> 0 < round_nat a"
  then have z: "round_nat a = 0" by simp
  with round_nat_bounds[of a] ulp_pos[of a] have "a div ulp a = 0" by simp
  then have "a < ulp a" using ulp_pos[of a] by (simp add: div_eq_0_iff)
  then have "1 < ulp a" using a by simp
  from ulp_lower[OF this] \<open>a < ulp a\<close> show False
    by (metis leD le_trans mult.commute mult.right_neutral mult_le_mono2 one_le_numeral one_le_power)
qed

lemma round_double_exact: "\<bar>n\<bar> \<le> 2 ^ 53 \<Longrightarrow> round_double n = n"
proof -
  assume "\<bar>n\<bar> \<le> 2 ^ 53"
  then have "nat \<bar>n\<bar> \<le> 2 ^ 53" by (simp add: nat_le_iff)
  then have "round_nat (nat \<bar>n\<bar>) = nat \<bar>n\<bar>" by (rule round_nat_exact)
  then show ?thesis by (simp add: round_double_def sgn_if)
qed

lemma is_double_iff: "is_double c \<longleftrightarrow> round_nat (nat \<bar>c\<bar>) = nat \<bar>c\<bar>"
  by (auto simp: is_double_def round_double_def sgn_if round_nat_exact)

lemma is_double_round: "is_double (round_double n)"
proof (cases "n = 0")
  case True
  then show ?thesis by (simp add: is_double_def round_double_exact)
next
  case False
  then have "0 < round_nat (nat \<bar>n\<bar>)" by (intro round_nat_pos) simp
  then have "nat \<bar>round_double n\<bar> = round_nat (nat \<bar>n\<bar>)"
    using False by (simp add: round_double_def sgn_if)
  then show ?thesis by (simp add: is_double_iff round_nat_idem)
qed

lemma round_double_succ_ge:
  assumes "is_double c"
  shows "c \<le> round_double (c + 1)"
proof (cases "0 \<le> c")
  case True
  from assms have "round_nat (nat c) = nat c" using True by (simp add: is_double_iff)
  from round_nat_Suc_ge[OF this] have "nat c \<le> round_nat (Suc (nat c))" .
  moreover have "nat \<bar>c + 1\<bar> = Suc (nat c)" using True by simp
  ultimately show ?thesis using True by (simp add: round_double_def sgn_if)
next
  case False
  then have neg: "c < 0" by simp
  show ?thesis
  proof (cases "c = -1")
    case True
    then show ?thesis by (simp add: round_double_exact)
  next
    case F: False
    with neg have lt: "c + 1 < 0" by simp
    from assms have fx: "round_nat (nat (- c)) = nat (- c)" using neg by (simp add: is_double_iff)
    have "nat (- (c + 1)) < nat (- c)" using neg by simp
    from round_nat_pred_le[OF fx this] have "int (round_nat (nat (- (c + 1)))) \<le> - c"
      using neg by simp
    then show ?thesis using lt by (simp add: round_double_def sgn_if)
  qed
qed

lemma number_add_exact: "\<bar>c\<bar> < 2 ^ 53 \<Longrightarrow> number_add c 1 = c + 1"
  unfolding number_add_def by (rule round_double_exact) simp

lemma number_add_ge: "is_double c \<Longrightarrow> c \<le> number_add c 1"
  unfolding number_add_def by (rule round_double_succ_ge)

lemma is_double_number_add: "is_double (number_add a b)"
  unfolding number_add_def by (rule is_double_round)

lemma is_double_small: "\<bar>c\<bar> \<le> 2 ^ 53 \<Longrightarrow> is_double c"
  by (simp add: is_double_def round_double_exact)


lemma number_add_2_53_2: "number_add 9007199254740994 1 = 9007199254740996"
proof -
  have u: "ulp 9007199254740995 = 2 ^ 1" by (rule ulp_unique) simp_all
  show ?thesis by (simp add: number_add_def round_double_def round_nat_def u)
qed

subsection \<open>Selection\<close>





lemma selected_is_candidate:
  assumes "getLowestPostedCountPlaylist limit r w = Inr (Some p)" "data w = Some d"
  shows "p \<in> set (playlists d) \<and>
         Num (posted_count_or_0 p) = least (map posted_count_or_0 (playlists d))"
proof -
  let ?cs = "filter (\<lambda>p. Num (posted_count_or_0 p) =
                          least (map posted_count_or_0 (playlists d))) (playlists d)"
  let ?i = "\<lfloor>r * real (length ?cs)\<rfloor>"
  from assms have i: "0 \<le> ?i" "?i < int (length ?cs)" and p: "p = ?cs ! nat ?i"
    by (auto simp: getLowestPostedCountPlaylist_def Math_min_def Let_def split: if_splits)
  from i have "nat ?i < length ?cs" by linarith
  then have "p \<in> set ?cs" unfolding p by (rule nth_mem)
  then show ?thesis by simp
qed





subsection \<open>Incrementing a count\<close>

lemma find_index_None: "find_index P xs = None \<longleftrightarrow> (\<forall>x\<in>set xs. \<not> P x)"
  by (induction xs) (auto split: option.splits)

lemma find_index_Some:
  "find_index P xs = Some i \<Longrightarrow> i < length xs \<and> P (xs ! i) \<and> (\<forall>j<i. \<not> P (xs ! j))"
proof (induction xs arbitrary: i)
  case Nil
  then show ?case by simp
next
  case (Cons x xs)
  show ?case
  proof (cases "P x")
    case True
    with Cons.prems show ?thesis by simp
  next
    case False
    with Cons.prems obtain k where k: "find_index P xs = Some k" "i = Suc k"
      by (auto split: option.splits)
    from Cons.IH[OF k(1)] False show ?thesis
      unfolding k(2) by (auto simp: less_Suc_eq_0_disj)
  qed
qed

lemma find_index_mem: "x \<in> set xs \<Longrightarrow> P x \<Longrightarrow> \<exists>i. find_index P xs = Some i"
  using find_index_None[of P xs] by (cases "find_index P xs") auto



lemma increment_found:
  assumes "data w = Some d" "find_index (\<lambda>q. uri q = u) (playlists d) = Some i"
  shows "incrementPostedCount u env w =
           PlaylistDatabase_write env
             (w\<lparr>data := Some (d\<lparr>playlists := (playlists d)
                [i := (playlists d ! i)
                        \<lparr>posted_count := Some (number_add (posted_count_or_0 (playlists d ! i)) 1)\<rparr>]\<rparr>)\<rparr>)"
  using assms by (simp add: incrementPostedCount_def Let_def)

lemma write_some:
  "data w = Some d \<Longrightarrow>
   PlaylistDatabase_write env w =
     (case write_failure env of
        Some e \<Rightarrow> (Inl e, w\<lparr>trace := trace w @ [AdapterWrite d]\<rparr>)
      | None \<Rightarrow> (Inr (), w\<lparr>json_file := Some d, trace := trace w @ [AdapterWrite d]\<rparr>))"
  by (simp add: PlaylistDatabase_write_def Low_write_def split: option.splits)

text \<open>
  C10. On a loaded collection, \<^verbatim>\<open>incrementPostedCount\<close> with a uri that no record has
  returns normally and changes nothing: the collection in memory, the file and the trace
  (so no write is made) are as before.
\<close>

theorem incrementPostedCount_unknown_uri:
  assumes "data w = Some d" "\<forall>p\<in>set (playlists d). uri p \<noteq> u"
  shows "incrementPostedCount u env w = (Inr (), w)"
proof -
  have "find_index (\<lambda>p. uri p = u) (playlists d) = None"
    using assms(2) by (simp add: find_index_None)
  then show ?thesis using assms(1) by (simp add: incrementPostedCount_def)
qed

theorem incrementPostedCount_unknown_uri_witness:
  "incrementPostedCount ''zzz'' env_ok world_A_loaded = (Inr (), world_A_loaded)"
proof -
  have "data world_A_loaded = Some scenario_A" by (simp add: ex_defs)
  moreover have "\<forall>p\<in>set (playlists scenario_A). uri p \<noteq> ''zzz''" by (simp add: ex_defs)
  ultimately show ?thesis by (rule incrementPostedCount_unknown_uri)
qed

subsection \<open>One run of the orchestrator\<close>

lemma read_ok:
  "read_failure env = None \<Longrightarrow>
   PlaylistDatabase_read env w =
     (Inr (), w\<lparr>data := (case json_file w of None \<Rightarrow> data w | Some d \<Rightarrow> Some d),
               trace := trace w @ [AdapterRead]\<rparr>)"
  by (simp add: PlaylistDatabase_read_def Low_read_def split: option.splits)

lemma read_fails:
  "read_failure env = Some e \<Longrightarrow>
   PlaylistDatabase_read env w = (Inl e, w\<lparr>trace := trace w @ [AdapterRead]\<rparr>)"
  by (simp add: PlaylistDatabase_read_def Low_read_def)

lemma read_result:
  assumes "PlaylistDatabase_read env w = (res, w1)"
  shows "json_file w1 = json_file w \<and> trace w1 = trace w @ [AdapterRead]"
  using assms
  by (auto simp: PlaylistDatabase_read_def Low_read_def Let_def split: option.splits)

lemma examples_read:
  "read_failure env = None \<Longrightarrow> PlaylistDatabase_read env world_A = (Inr (), world_A_loaded)"
  by (simp add: read_ok world_A_def world_A_loaded_def)

lemma examples_select:
  "getLowestPostedCountPlaylist 100000 (1 / 2) world_A_loaded = Inr (Some playlist_b)"
  by (simp add: getLowestPostedCountPlaylist_def Math_min_def posted_count_or_0_def ex_defs)

text \<open>
  C8. When the collection read is empty, \<^verbatim>\<open>getLowestPostedCountPlaylist\<close> returns
  \<^verbatim>\<open>null\<close> for every value of the random source (and whatever the engine's limit of
  arguments is), and \<^verbatim>\<open>postRandomPlaylist\<close> (dry run or not) returns normally after the read
  and one line on the console: no status is created, nothing is written, and the
  collection in memory and the file are as the read left them.
\<close>

theorem empty_collection_noop:
  assumes rd: "PlaylistDatabase_read env w = (Inr (), w1)"
      and d: "data w1 = Some d"
      and empty: "playlists d = []"
  shows "getLowestPostedCountPlaylist limit r w1 = Inr None \<and>
         (\<exists>w'. postRandomPlaylist dryRun env w = (Inr (), w') \<and>
               trace w' = trace w @ [AdapterRead, ConsoleLog [''No playlists available to post.'']] \<and>
               data w' = data w1 \<and> json_file w' = json_file w)"
proof -
  have sel: "getLowestPostedCountPlaylist limit r w1 = Inr None" for limit r
    using d empty by (simp add: getLowestPostedCountPlaylist_def Math_min_def)
  then show ?thesis
    using rd read_result[OF rd] by (simp add: postRandomPlaylist_def console_log_def)
qed

theorem empty_collection_noop_witness:
  "getLowestPostedCountPlaylist 100000 (1 / 2)
     \<lparr>json_file = Some \<lparr>playlists = []\<rparr>, data = Some \<lparr>playlists = []\<rparr>, trace = [AdapterRead]\<rparr>
     = Inr None \<and>
   postRandomPlaylist False env_ok
     \<lparr>json_file = Some \<lparr>playlists = []\<rparr>, data = Some \<lparr>playlists = []\<rparr>, trace = []\<rparr>
     = (Inr (), \<lparr>json_file = Some \<lparr>playlists = []\<rparr>, data = Some \<lparr>playlists = []\<rparr>,
                 trace = [AdapterRead, ConsoleLog [''No playlists available to post.'']]\<rparr>)"
proof -
  let ?w = "\<lparr>json_file = Some \<lparr>playlists = []\<rparr>, data = Some \<lparr>playlists = []\<rparr>, trace = []\<rparr>"
  let ?w1 = "\<lparr>json_file = Some \<lparr>playlists = []\<rparr>, data = Some \<lparr>playlists = []\<rparr>,
              trace = [AdapterRead]\<rparr>"
  have rd: "PlaylistDatabase_read env_ok ?w = (Inr (), ?w1)"
    by (simp add: read_ok env_ok_def)
  have d: "data ?w1 = Some \<lparr>playlists = []\<rparr>" by simp
  have e: "playlists \<lparr>playlists = []\<rparr> = []" by simp
  from empty_collection_noop[OF rd d e, of 100000 "1 / 2" False] show ?thesis by auto
qed

text \<open>
  C3. When the collection was read, a record was selected and creating the status fails,
  \<^verbatim>\<open>postRandomPlaylist\<close> returns normally: the error is logged, the collection in memory is
  the one that was read (no count changed: it is the collection of the file, or, without a
  file, the one in memory before), the file is as before, and the run made no write: after
  the read, its trace is the call of the publisher and the line of the error.
\<close>

theorem publish_rejected_no_change:
  assumes rd: "PlaylistDatabase_read env w = (Inr (), w1)"
      and sel: "getLowestPostedCountPlaylist (argument_limit env) (Math_random env) w1
                  = Inr (Some playlist)"
      and rej: "create_result env = Inl e"
  shows "\<exists>w'. postRandomPlaylist False env w = (Inr (), w') \<and>
           data w' = data w1 \<and>
           data w' = (case json_file w of None \<Rightarrow> data w | Some d \<Rightarrow> Some d) \<and>
           json_file w' = json_file w \<and>
           trace w' = trace w @ [AdapterRead, StatusesCreate (statusText playlist),
                                 ConsoleError [''Error posting to Mastodon:''] e] \<and>
           \<not> list_ex is_write (drop (length (trace w)) (trace w'))"
proof -
  have "read_failure env = None"
    using rd by (cases "read_failure env") (simp_all add: read_fails)
  from read_ok[OF this, of w] rd
  have "data w1 = (case json_file w of None \<Rightarrow> data w | Some d \<Rightarrow> Some d)" by auto
  then show ?thesis
    using assms read_result[OF rd]
    by (simp add: postRandomPlaylist_def createStatus_def console_error_def is_write_def)
qed

theorem publish_rejected_no_change_witness:
  "postRandomPlaylist False (env_ok\<lparr>create_result := Inl PublishRejected\<rparr>) world_A =
     (Inr (), \<lparr>json_file = Some scenario_A, data = Some scenario_A,
                trace = [AdapterRead, StatusesCreate (statusText playlist_b),
                         ConsoleError [''Error posting to Mastodon:''] PublishRejected]\<rparr>)"
proof -
  let ?env = "env_ok\<lparr>create_result := Inl PublishRejected\<rparr>"
  have rd: "PlaylistDatabase_read ?env world_A = (Inr (), world_A_loaded)"
    by (simp add: examples_read env_ok_def)
  have sel: "getLowestPostedCountPlaylist (argument_limit ?env) (Math_random ?env)
               world_A_loaded = Inr (Some playlist_b)"
    using examples_select by (simp add: env_ok_def)
  have rej: "create_result ?env = Inl PublishRejected" by simp
  from publish_rejected_no_change[OF rd sel rej] obtain w' where
    "postRandomPlaylist False ?env world_A = (Inr (), w')" "data w' = data world_A_loaded"
    "json_file w' = json_file world_A"
    "trace w' = trace world_A @ [AdapterRead, StatusesCreate (statusText playlist_b),
                                 ConsoleError [''Error posting to Mastodon:''] PublishRejected]"
    by blast
  then show ?thesis by (cases w') (simp add: world_A_def world_A_loaded_def)
qed









subsection \<open>Dry runs\<close>

lemma dry_post:
  assumes "postRandomPlaylist True env w = (res, w')"
  shows "json_file w' = json_file w \<and>
         (\<exists>evs. trace w' = trace w @ evs \<and> \<not> list_ex is_write evs \<and> \<not> list_ex is_publish evs) \<and>
         (data w' = data w \<or> data w' = json_file w)"
proof (cases "read_failure env")
  case (Some e)
  with assms show ?thesis
    by (auto simp: postRandomPlaylist_def read_fails is_write_def is_publish_def)
next
  case None
  let ?w1 = "w\<lparr>data := (case json_file w of None \<Rightarrow> data w | Some d \<Rightarrow> Some d),
               trace := trace w @ [AdapterRead]\<rparr>"
  show ?thesis
  proof (cases "getLowestPostedCountPlaylist (argument_limit env) (Math_random env) ?w1")
    case (Inl e)
    with assms None show ?thesis
      by (auto simp: postRandomPlaylist_def read_ok is_write_def is_publish_def
               split: option.splits)
  next
    case (Inr sel)
    with assms None show ?thesis
      by (cases sel)
         (auto simp: postRandomPlaylist_def read_ok console_log_def is_write_def is_publish_def
               split: option.splits)
  qed
qed

lemma dry_toplevel:
  assumes "''--dry-run'' \<in> set (argv env)"
  shows "json_file (toplevel env w) = json_file w \<and>
         (\<exists>evs. trace (toplevel env w) = trace w @ evs \<and>
                \<not> list_ex is_write evs \<and> \<not> list_ex is_publish evs)"
proof (cases "unset (MASTODON_URL env) \<or> unset (MASTODON_ACCESS_TOKEN env)")
  case True
  then show ?thesis
    by (simp add: toplevel_def main_def PlaylistBot_new_def PlaylistDatabase_new_def
                  console_error_def is_write_def is_publish_def)
next
  case False
  define w0 where "w0 = PlaylistDatabase_new w"
  obtain res w' where run: "postRandomPlaylist True env w0 = (res, w')"
    by (cases "postRandomPlaylist True env w0")
  have w0: "json_file w0 = json_file w" "trace w0 = trace w"
    by (simp_all add: w0_def PlaylistDatabase_new_def)
  from dry_post[OF run] w0 obtain evs where
    evs: "json_file w' = json_file w" "trace w' = trace w @ evs"
         "\<not> list_ex is_write evs" "\<not> list_ex is_publish evs" by auto
  show ?thesis
  proof (cases res)
    case (Inl e)
    have "toplevel env w = console_error [] e w'"
      using False run Inl assms
      by (simp add: toplevel_def main_def PlaylistBot_new_def w0_def[symmetric])
    with evs show ?thesis by (simp add: console_error_def is_write_def is_publish_def)
  next
    case (Inr u)
    have "toplevel env w = w'"
      using False run Inr assms
      by (simp add: toplevel_def main_def PlaylistBot_new_def w0_def[symmetric])
    with evs show ?thesis by simp
  qed
qed

lemma dry_invocations:
  assumes "\<forall>env\<in>set envs. ''--dry-run'' \<in> set (argv env)"
  shows "json_file (invocations envs w) = json_file w \<and>
         (\<exists>evs. trace (invocations envs w) = trace w @ evs \<and>
                \<not> list_ex is_write evs \<and> \<not> list_ex is_publish evs)"
  using assms
proof (induction envs arbitrary: w)
  case Nil
  show ?case by simp
next
  case (Cons env envs)
  from dry_toplevel[of env w] Cons.prems obtain evs1 where
    s1: "json_file (toplevel env w) = json_file w" "trace (toplevel env w) = trace w @ evs1"
        "\<not> list_ex is_write evs1" "\<not> list_ex is_publish evs1" by auto
  from Cons.IH[of "toplevel env w"] Cons.prems obtain evs2 where
    s2: "json_file (invocations envs (toplevel env w)) = json_file (toplevel env w)"
        "trace (invocations envs (toplevel env w)) = trace (toplevel env w) @ evs2"
        "\<not> list_ex is_write evs2" "\<not> list_ex is_publish evs2" by auto
  have "trace (invocations (env # envs) w) = trace w @ (evs1 @ evs2)" using s1 s2 by simp
  moreover have "\<not> list_ex is_write (evs1 @ evs2)" "\<not> list_ex is_publish (evs1 @ evs2)"
    using s1 s2 by (auto simp: list_ex_iff)
  ultimately show ?case using s1 s2 by (intro conjI exI[of _ "evs1 @ evs2"]) simp_all
qed

text \<open>
  C5. A call of \<^verbatim>\<open>postRandomPlaylist\<close> in dry-run mode, from any world and whatever the
  outside answers, leaves the file as it was, appends to the trace no write and no call
  of the publisher, and increments nothing: the collection in memory is the one before the
  call or the one read from the file. So any number of starts of the process with the flag
  \<^verbatim>\<open>--dry-run\<close> leave the file equal to its first contents, without a write or a publish.
\<close>

theorem dry_run_frame:
  "(json_file (snd (postRandomPlaylist True env w)) = json_file w \<and>
    (\<exists>evs. trace (snd (postRandomPlaylist True env w)) = trace w @ evs \<and>
           \<not> list_ex is_write evs \<and> \<not> list_ex is_publish evs) \<and>
    (data (snd (postRandomPlaylist True env w)) = data w \<or>
     data (snd (postRandomPlaylist True env w)) = json_file w)) \<and>
   ((\<forall>env\<in>set envs. ''--dry-run'' \<in> set (argv env)) \<longrightarrow>
      json_file (invocations envs w) = json_file w \<and>
      (\<exists>evs. trace (invocations envs w) = trace w @ evs \<and>
             \<not> list_ex is_write evs \<and> \<not> list_ex is_publish evs))"
proof -
  obtain res w' where run: "postRandomPlaylist True env w = (res, w')"
    by (cases "postRandomPlaylist True env w")
  from dry_post[OF run] dry_invocations[of envs w] show ?thesis
    unfolding run by simp
qed

theorem dry_run_frame_witness:
  "json_file (invocations [env_ok\<lparr>argv := [''node'', ''mastodonBot.js'', ''--dry-run'']\<rparr>,
                           env_ok\<lparr>argv := [''node'', ''mastodonBot.js'', ''--dry-run'']\<rparr>] world_A)
     = Some scenario_A \<and>
   trace (invocations [env_ok\<lparr>argv := [''node'', ''mastodonBot.js'', ''--dry-run'']\<rparr>,
                       env_ok\<lparr>argv := [''node'', ''mastodonBot.js'', ''--dry-run'']\<rparr>] world_A)
     = [AdapterRead, ConsoleLog [''--- DRY RUN ---''],
        ConsoleLog [''Status Text:'', statusText playlist_b], ConsoleLog [''--- END DRY RUN ---''],
        AdapterRead, ConsoleLog [''--- DRY RUN ---''],
        ConsoleLog [''Status Text:'', statusText playlist_b], ConsoleLog [''--- END DRY RUN ---'']]"
proof -
  let ?env = "env_ok\<lparr>argv := [''node'', ''mastodonBot.js'', ''--dry-run'']\<rparr>"
  have flag: "\<forall>env\<in>set [?env, ?env]. ''--dry-run'' \<in> set (argv env)" by simp
  from dry_run_frame[of ?env world_A "[?env, ?env]"] flag
  have "json_file (invocations [?env, ?env] world_A) = json_file world_A" by blast
  moreover have "trace (invocations [?env, ?env] world_A)
     = [AdapterRead, ConsoleLog [''--- DRY RUN ---''],
        ConsoleLog [''Status Text:'', statusText playlist_b], ConsoleLog [''--- END DRY RUN ---''],
        AdapterRead, ConsoleLog [''--- DRY RUN ---''],
        ConsoleLog [''Status Text:'', statusText playlist_b], ConsoleLog [''--- END DRY RUN ---'']]"
    by (simp add: run_defs ex_defs)
  ultimately show ?thesis by (simp add: world_A_def)
qed

subsection \<open>The counts over many runs\<close>

lemma post_file_effect:
  assumes run: "postRandomPlaylist dr env w = (res, w')"
      and pre: "json_file w = None \<Longrightarrow> data w = Some \<lparr>playlists = []\<rparr>"
  shows "json_file w' = json_file w \<or>
         (\<exists>d i. json_file w = Some d \<and> i < length (playlists d) \<and>
            json_file w' = Some (d\<lparr>playlists := (playlists d)
              [i := (playlists d ! i)
                      \<lparr>posted_count := Some (number_add (posted_count_or_0 (playlists d ! i)) 1)\<rparr>]\<rparr>))"
proof (cases "read_failure env")
  case (Some e)
  with run show ?thesis by (auto simp: postRandomPlaylist_def read_fails)
next
  case None
  define d1 where "d1 = (case json_file w of None \<Rightarrow> \<lparr>playlists = []\<rparr> | Some d \<Rightarrow> d)"
  define w1 where "w1 = w\<lparr>data := Some d1, trace := trace w @ [AdapterRead]\<rparr>"
  have rd: "PlaylistDatabase_read env w = (Inr (), w1)"
    using None pre by (simp add: read_ok w1_def d1_def split: option.splits)
  have f1: "json_file w1 = json_file w" and dw1: "data w1 = Some d1" by (simp_all add: w1_def)
  show ?thesis
  proof (cases "getLowestPostedCountPlaylist (argument_limit env) (Math_random env) w1")
    case (Inl e)
    with run rd f1 show ?thesis by (auto simp: postRandomPlaylist_def)
  next
    case (Inr sel)
    show ?thesis
    proof (cases sel)
      case None
      with run rd f1 Inr show ?thesis by (auto simp: postRandomPlaylist_def console_log_def)
    next
      case (Some p)
      from selected_is_candidate[OF Inr[unfolded Some] dw1]
      have mem: "p \<in> set (playlists d1)" by simp
      then have jf: "json_file w = Some d1" by (auto simp: d1_def split: option.splits)
      show ?thesis
      proof (cases "dr \<or> (\<exists>e. create_result env = Inl e)")
        case True
        with run rd f1 Inr Some show ?thesis
          by (auto simp: postRandomPlaylist_def console_log_def console_error_def
                         createStatus_def
                   split: if_splits)
      next
        case False
        then obtain st where st: "create_result env = Inr st" and dr: "\<not> dr"
          by (cases "create_result env") auto
        define w2 where
          "w2 = console_log [''Posted successfully:'', case st of None \<Rightarrow> [] | Some i \<Rightarrow> i]
                  (w1\<lparr>trace := trace w1 @ [StatusesCreate (statusText p)]\<rparr>)"
        have d2: "data w2 = Some d1" and f2: "json_file w2 = json_file w"
          by (simp_all add: w2_def console_log_def dw1 f1)
        obtain i where i: "find_index (\<lambda>q. uri q = uri p) (playlists d1) = Some i"
          using find_index_mem[OF mem, of "\<lambda>q. uri q = uri p"] by auto
        have len: "i < length (playlists d1)" using find_index_Some[OF i] by simp
        have run': "postRandomPlaylist dr env w =
          (case incrementPostedCount (uri p) env w2 of
             (Inl e, w3) \<Rightarrow> (Inr (), console_error [''Error posting to Mastodon:''] e w3)
           | (Inr _, w3) \<Rightarrow> (Inr (), w3))"
          using rd Inr Some st dr by (simp add: postRandomPlaylist_def createStatus_def w2_def)
        show ?thesis
          using run len jf f2 unfolding run' increment_found[OF d2 i]
          by (cases "write_failure env") (auto simp: write_some console_error_def)
      qed
    qed
  qed
qed

lemma toplevel_records:
  "records (toplevel env w) = records w \<or>
   (\<exists>i<length (records w). records (toplevel env w) =
      (records w)[i := (records w ! i)
                         \<lparr>posted_count := Some (number_add (posted_count_or_0 (records w ! i)) 1)\<rparr>])"
proof (cases "unset (MASTODON_URL env) \<or> unset (MASTODON_ACCESS_TOKEN env)")
  case True
  then show ?thesis
    by (simp add: toplevel_def main_def PlaylistBot_new_def PlaylistDatabase_new_def
                  console_error_def records_def)
next
  case False
  define w0 where "w0 = PlaylistDatabase_new w"
  define dr where "dr = (''--dry-run'' \<in> set (argv env))"
  obtain res w' where run: "postRandomPlaylist dr env w0 = (res, w')"
    by (cases "postRandomPlaylist dr env w0")
  have f0: "json_file w0 = json_file w" and d0: "data w0 = Some \<lparr>playlists = []\<rparr>"
    by (simp_all add: w0_def PlaylistDatabase_new_def)
  have top: "json_file (toplevel env w) = json_file w'"
    using False run
    by (cases res) (simp_all add: toplevel_def main_def PlaylistBot_new_def w0_def[symmetric]
                      dr_def[symmetric] console_error_def)
  from post_file_effect[OF run] d0 f0
  have "json_file w' = json_file w \<or>
         (\<exists>d i. json_file w = Some d \<and> i < length (playlists d) \<and>
            json_file w' = Some (d\<lparr>playlists := (playlists d)
              [i := (playlists d ! i)
                      \<lparr>posted_count := Some (number_add (posted_count_or_0 (playlists d ! i)) 1)\<rparr>]\<rparr>))"
    by simp
  then show ?thesis unfolding records_def top by auto
qed

lemma same_records_refl: "same_records ps ps"
  by (simp add: same_records_def)

lemma same_records_trans:
  assumes "same_records ps qs" "same_records qs rs"
  shows "same_records ps rs"
  unfolding same_records_def
proof (intro conjI allI impI)
  show "length rs = length ps" using assms by (simp add: same_records_def)
next
  fix i assume i: "i < length ps"
  then have q: "qs ! i = (ps ! i)\<lparr>posted_count := posted_count (qs ! i)\<rparr>"
    and r: "rs ! i = (qs ! i)\<lparr>posted_count := posted_count (rs ! i)\<rparr>"
    using assms by (auto simp: same_records_def)
  show "rs ! i = (ps ! i)\<lparr>posted_count := posted_count (rs ! i)\<rparr>"
    by (subst r, subst q) simp
qed

lemma same_records_update:
  "i < length ps \<Longrightarrow> same_records ps (ps[i := (ps ! i)\<lparr>posted_count := c\<rparr>])"
  by (auto simp: same_records_def nth_list_update)

lemma toplevel_same: "same_records (records w) (records (toplevel env w))"
  using toplevel_records[of env w] by (auto simp: same_records_refl same_records_update)

lemma invocations_same: "same_records (records w) (records (invocations envs w))"
proof (induction envs arbitrary: w)
  case Nil
  show ?case by (simp add: same_records_refl)
next
  case (Cons env envs)
  show ?case using same_records_trans[OF toplevel_same Cons.IH] by simp
qed

lemma grown_refl: "grown ps ps"
  by (simp add: grown_def same_records_refl)

lemma grown_trans:
  assumes "grown ps qs" "grown qs rs"
  shows "grown ps rs"
proof -
  have len: "length qs = length ps" using assms(1) by (simp add: grown_def same_records_def)
  have "posted_count_or_0 (ps ! i) \<le> posted_count_or_0 (rs ! i)" if "i < length ps" for i
  proof -
    have "posted_count_or_0 (ps ! i) \<le> posted_count_or_0 (qs ! i)"
      using assms(1) that by (simp add: grown_def)
    also have "\<dots> \<le> posted_count_or_0 (rs ! i)"
      using assms(2) that len by (simp add: grown_def)
    finally show ?thesis .
  qed
  moreover have "same_records ps rs"
    using assms by (auto simp: grown_def intro: same_records_trans)
  ultimately show ?thesis by (simp add: grown_def)
qed

lemma grown_update:
  assumes "i < length ps" "is_double (posted_count_or_0 (ps ! i))"
  shows "grown ps (ps[i := (ps ! i)
                     \<lparr>posted_count := Some (number_add (posted_count_or_0 (ps ! i)) 1)\<rparr>])"
proof -
  have "posted_count_or_0 (ps ! i) \<le> number_add (posted_count_or_0 (ps ! i)) 1"
    using assms(2) by (rule number_add_ge)
  then show ?thesis
    using assms(1)
    by (auto simp: grown_def same_records_update nth_list_update posted_count_or_0_def)
qed

lemma doubles_update:
  assumes "doubles ps"
  shows "doubles (ps[i := (ps ! i)\<lparr>posted_count := Some (number_add c 1)\<rparr>])"
  unfolding doubles_def
proof
  fix p assume "p \<in> set (ps[i := (ps ! i)\<lparr>posted_count := Some (number_add c 1)\<rparr>])"
  then have "p = (ps ! i)\<lparr>posted_count := Some (number_add c 1)\<rparr> \<or> p \<in> set ps"
    using set_update_subset_insert[of ps i] by auto
  then show "is_double (posted_count_or_0 p)"
    using assms by (auto simp: doubles_def posted_count_or_0_def is_double_number_add)
qed

lemma toplevel_grown:
  assumes "doubles (records w)"
  shows "grown (records w) (records (toplevel env w)) \<and> doubles (records (toplevel env w))"
proof -
  from toplevel_records[of env w] show ?thesis
  proof
    assume "records (toplevel env w) = records w"
    with assms show ?thesis by (simp add: grown_refl)
  next
    assume "\<exists>i<length (records w). records (toplevel env w) =
       (records w)[i := (records w ! i)
          \<lparr>posted_count := Some (number_add (posted_count_or_0 (records w ! i)) 1)\<rparr>]"
    then obtain i where i: "i < length (records w)"
      and eq: "records (toplevel env w) = (records w)[i := (records w ! i)
          \<lparr>posted_count := Some (number_add (posted_count_or_0 (records w ! i)) 1)\<rparr>]"
      by blast
    from assms i have "is_double (posted_count_or_0 (records w ! i))"
      by (simp add: doubles_def)
    from grown_update[OF i this] doubles_update[OF assms] show ?thesis unfolding eq by simp
  qed
qed

lemma invocations_grown:
  assumes "doubles (records w)"
  shows "grown (records w) (records (invocations envs w))"
  using assms
proof (induction envs arbitrary: w)
  case Nil
  show ?case by (simp add: grown_refl)
next
  case (Cons env envs)
  from toplevel_grown[OF Cons.prems, of env]
  have g: "grown (records w) (records (toplevel env w))"
    and d: "doubles (records (toplevel env w))" by simp_all
  from grown_trans[OF g Cons.IH[OF d]] show ?case by simp
qed

text \<open>
  C9, as the code has it. Over any sequence of starts of the process, whatever the outside
  answers, the file keeps the same number of records and each record keeps every field but
  \<^verbatim>\<open>posted_count\<close>. When the counts of the file are doubles, the effective posted count of
  each record does not decrease; and then, when no effective count of the file is negative
  at first, none is negative afterwards. The code checks no count: a count that is
  negative in the file is used as it is. One start leaves the records as they were, or
  replaces the count of one record by the sum of its effective count and one and leaves
  all the others as they were; and so does one call of \<^verbatim>\<open>incrementPostedCount\<close> with the
  loaded collection in memory.
\<close>

theorem posted_count_invariants:
  "(length (records (invocations envs w)) = length (records w) \<and>
    (\<forall>i<length (records w).
        records (invocations envs w) ! i =
          (records w ! i)\<lparr>posted_count := posted_count (records (invocations envs w) ! i)\<rparr>)) \<and>
   ((\<forall>p\<in>set (records w). is_double (posted_count_or_0 p)) \<longrightarrow>
      (\<forall>i<length (records w).
          posted_count_or_0 (records w ! i)
            \<le> posted_count_or_0 (records (invocations envs w) ! i)) \<and>
      ((\<forall>p\<in>set (records w). 0 \<le> posted_count_or_0 p) \<longrightarrow>
       (\<forall>p\<in>set (records (invocations envs w)). 0 \<le> posted_count_or_0 p))) \<and>
   (records (toplevel env w) = records w \<or>
    (\<exists>i<length (records w). records (toplevel env w) =
       (records w)[i := (records w ! i)
          \<lparr>posted_count := Some (number_add (posted_count_or_0 (records w ! i)) 1)\<rparr>])) \<and>
   (data w = Some d \<longrightarrow>
      (\<exists>d'. data (snd (incrementPostedCount u env w)) = Some d' \<and>
         (playlists d' = playlists d \<or>
          (\<exists>i<length (playlists d). playlists d' =
             (playlists d)[i := (playlists d ! i)
                \<lparr>posted_count := Some (number_add (posted_count_or_0 (playlists d ! i)) 1)\<rparr>]))))"
proof -
  let ?ps = "records w" and ?ps' = "records (invocations envs w)"
  have mem: "\<exists>d'. data (snd (incrementPostedCount u env w)) = Some d' \<and>
         (playlists d' = playlists d \<or>
          (\<exists>i<length (playlists d). playlists d' =
             (playlists d)[i := (playlists d ! i)
                \<lparr>posted_count := Some (number_add (posted_count_or_0 (playlists d ! i)) 1)\<rparr>]))"
    if d: "data w = Some d"
  proof (cases "find_index (\<lambda>q. uri q = u) (playlists d)")
    case None
    with d show ?thesis by (simp add: incrementPostedCount_def)
  next
    case (Some i)
    have "i < length (playlists d)" using find_index_Some[OF Some] by simp
    then show ?thesis
      unfolding increment_found[OF d Some]
      by (cases "write_failure env") (auto simp: write_some)
  qed
  have same: "length ?ps' = length ?ps \<and>
    (\<forall>i<length ?ps. ?ps' ! i = (?ps ! i)\<lparr>posted_count := posted_count (?ps' ! i)\<rparr>)"
    using invocations_same[of w envs] by (simp add: same_records_def)
  have mono: "\<forall>i<length ?ps. posted_count_or_0 (?ps ! i) \<le> posted_count_or_0 (?ps' ! i)"
    if dbl: "\<forall>p\<in>set ?ps. is_double (posted_count_or_0 p)"
    using invocations_grown[of w envs] dbl by (simp add: grown_def doubles_def)
  have nonneg: "\<forall>p\<in>set ?ps'. 0 \<le> posted_count_or_0 p"
    if dbl: "\<forall>p\<in>set ?ps. is_double (posted_count_or_0 p)"
      and h: "\<forall>p\<in>set ?ps. 0 \<le> posted_count_or_0 p"
  proof
    fix p assume "p \<in> set ?ps'"
    then obtain i where i: "i < length ?ps'" "?ps' ! i = p" by (auto simp: in_set_conv_nth)
    with same mono[OF dbl]
    have "i < length ?ps" "posted_count_or_0 (?ps ! i) \<le> posted_count_or_0 p" by auto
    moreover from this h have "0 \<le> posted_count_or_0 (?ps ! i)" by simp
    ultimately show "0 \<le> posted_count_or_0 p" by simp
  qed
  from same mono nonneg toplevel_records[of env w] mem show ?thesis by blast
qed

theorem posted_count_invariants_witness:
  "records (invocations [env_ok, env_ok] world_A) =
     [playlist_a, playlist_b\<lparr>posted_count := Some 1\<rparr>, playlist_c\<lparr>posted_count := Some 2\<rparr>] \<and>
   length (records (invocations [env_ok, env_ok] world_A)) = length (records world_A) \<and>
   list_all (\<lambda>p. is_double (posted_count_or_0 p)) (records world_A) \<and>
   posted_count_or_0 (records world_A ! 1)
     \<le> posted_count_or_0 (records (invocations [env_ok, env_ok] world_A) ! 1) \<and>
   list_all (\<lambda>p. 0 \<le> posted_count_or_0 p) (records (invocations [env_ok, env_ok] world_A)) \<and>
   records (toplevel env_ok world_A) =
     (records world_A)[1 := (records world_A ! 1)\<lparr>posted_count := Some 1\<rparr>]"
proof -
  have len: "(1::nat) < length (records world_A)" by (simp add: records_def ex_defs)
  have dbl: "\<forall>p\<in>set (records world_A). is_double (posted_count_or_0 p)"
    by (simp add: records_def posted_count_or_0_def ex_defs is_double_small)
  have pos: "\<forall>p\<in>set (records world_A). 0 \<le> posted_count_or_0 p"
    by (simp add: records_def posted_count_or_0_def ex_defs)
  have val: "records (invocations [env_ok, env_ok] world_A) =
     [playlist_a, playlist_b\<lparr>posted_count := Some 1\<rparr>, playlist_c\<lparr>posted_count := Some 2\<rparr>]"
    by (simp add: records_def run_defs ex_defs number_add_exact)
  have one: "records (toplevel env_ok world_A) =
     (records world_A)[1 := (records world_A ! 1)\<lparr>posted_count := Some 1\<rparr>]"
    by (simp add: records_def run_defs ex_defs number_add_exact)
  from posted_count_invariants[of "[env_ok, env_ok]" world_A env_ok scenario_A "''b''"]
    len dbl pos
  have "length (records (invocations [env_ok, env_ok] world_A)) = length (records world_A)"
    "posted_count_or_0 (records world_A ! 1)
       \<le> posted_count_or_0 (records (invocations [env_ok, env_ok] world_A) ! 1)"
    "\<forall>p\<in>set (records (invocations [env_ok, env_ok] world_A)). 0 \<le> posted_count_or_0 p"
    by blast+
  with val one dbl show ?thesis by (simp add: list_all_iff)
qed

text \<open>
  C9, as the claim states it, fails: the record of the file whose count is \<open>-5\<close> has a
  negative effective count, and after a run that posts it and counts the post the
  effective count is \<open>-4\<close>, negative again.
\<close>

theorem posted_count_invariants_counterexample:
  "records (world_of \<lparr>playlists = [playlist_neg]\<rparr>) = [playlist_neg] \<and>
   posted_count_or_0 playlist_neg = - 5 \<and>
   posted_count_or_0 playlist_neg < 0 \<and>
   records (toplevel env_ok (world_of \<lparr>playlists = [playlist_neg]\<rparr>))
     = [playlist_neg\<lparr>posted_count := Some (- 4)\<rparr>] \<and>
   posted_count_or_0 (playlist_neg\<lparr>posted_count := Some (- 4)\<rparr>) < 0"
  by (simp add: records_def run_defs ex_defs number_add_exact)

subsection \<open>The status text\<close>

lemma replace_first_occurrence:
  assumes "\<forall>k<length pre. \<not> prefix pat (drop k (pre @ pat @ post))"
  shows "replace (pre @ pat @ post) pat rep = pre @ rep @ post"
  using assms
proof (induction pre)
  case Nil
  show ?case
  proof (cases "pat @ post")
    case Nil
    then show ?thesis by simp
  next
    case (Cons a l)
    have pre: "prefix pat (a # l)" unfolding Cons[symmetric] by simp
    have "replace (a # l) pat rep = rep @ drop (length pat) (a # l)" using pre by simp
    also have "drop (length pat) (a # l) = post" unfolding Cons[symmetric] by simp
    finally show ?thesis unfolding append_Nil Cons .
  qed
next
  case (Cons x pre)
  from Cons.prems have "\<not> prefix pat (x # pre @ pat @ post)" by force
  moreover have "\<forall>k<length pre. \<not> prefix pat (drop k (pre @ pat @ post))"
  proof (intro allI impI)
    fix k assume "k < length pre"
    then have "Suc k < length (x # pre)" by simp
    with Cons.prems have "\<not> prefix pat (drop (Suc k) ((x # pre) @ pat @ post))" by blast
    then show "\<not> prefix pat (drop k (pre @ pat @ post))" by simp
  qed
  ultimately show ?case using Cons.IH by simp
qed

lemma replace_no_occurrence:
  assumes "\<not> (\<exists>pre post. s = pre @ pat @ post)"
  shows "replace s pat rep = s"
  using assms
proof (induction s)
  case Nil
  then have "pat \<noteq> []" by auto
  then show ?case by simp
next
  case (Cons c cs)
  have "\<not> prefix pat (c # cs)"
  proof
    assume "prefix pat (c # cs)"
    then obtain post where "c # cs = [] @ pat @ post" by (auto simp: prefix_def)
    with Cons.prems show False by blast
  qed
  moreover have "\<not> (\<exists>pre post. cs = pre @ pat @ post)"
  proof
    assume "\<exists>pre post. cs = pre @ pat @ post"
    then obtain pre post where "cs = pre @ pat @ post" by blast
    then have "c # cs = (c # pre) @ pat @ post" by simp
    with Cons.prems show False by blast
  qed
  ultimately show ?case using Cons.IH by simp
qed

text \<open>
  C6, as the code has it. \<^verbatim>\<open>name.replace(' Mix', '')\<close> removes the first occurrence of
  \<open>Mix\<close> with its leading space wherever it stands in the name: a name in which it does
  not occur is unchanged, and a name \<open>pre @ '' Mix'' @ post\<close> in which no occurrence starts
  before the end of \<open>pre\<close> becomes \<open>pre @ post\<close>. With \<open>post\<close> empty this is the name that
  ends in the suffix and has no earlier occurrence: it loses the suffix.
\<close>

theorem cleanName_first_occurrence:
  "(\<not> (\<exists>pre post. name p = pre @ '' Mix'' @ post) \<longrightarrow> cleanName p = name p) \<and>
   (name p = pre @ '' Mix'' @ post \<and> (\<forall>k<length pre. \<not> prefix '' Mix'' (drop k (name p))) \<longrightarrow>
      cleanName p = pre @ post)"
proof (intro conjI impI)
  assume "\<not> (\<exists>pre post. name p = pre @ '' Mix'' @ post)"
  then show "cleanName p = name p" unfolding cleanName_def by (rule replace_no_occurrence)
next
  assume h: "name p = pre @ '' Mix'' @ post \<and>
             (\<forall>k<length pre. \<not> prefix '' Mix'' (drop k (name p)))"
  then have a: "name p = pre @ '' Mix'' @ post"
    and b: "\<forall>k<length pre. \<not> prefix '' Mix'' (drop k (name p))" by blast+
  have "replace (pre @ '' Mix'' @ post) '' Mix'' [] = pre @ [] @ post"
    by (rule replace_first_occurrence) (rule b[unfolded a])
  then show "cleanName p = pre @ post" unfolding cleanName_def a by simp
qed

theorem cleanName_first_occurrence_witness:
  "cleanName playlist_b = ''Focus'' \<and> cleanName (playlist_a\<lparr>name := ''Jazz''\<rparr>) = ''Jazz'' \<and>
   cleanName playlist_c = ''Daily 1''"
proof -
  have 1: "name playlist_b = ''Focus'' @ '' Mix'' @ [] \<and>
        (\<forall>k<length ''Focus''. \<not> prefix '' Mix'' (drop k (name playlist_b)))"
    by (simp add: playlist_b_def All_less_Suc)
  have 2: "\<not> (\<exists>pre post. name (playlist_a\<lparr>name := ''Jazz''\<rparr>) = pre @ '' Mix'' @ post)"
    by (auto simp: append_eq_Cons_conv Cons_eq_append_conv)
  have 3: "name playlist_c = ''Daily'' @ '' Mix'' @ '' 1'' \<and>
        (\<forall>k<length ''Daily''. \<not> prefix '' Mix'' (drop k (name playlist_c)))"
    by (simp add: playlist_c_def All_less_Suc)
  from cleanName_first_occurrence[of playlist_b "''Focus''" "[]"] 1
  have "cleanName playlist_b = ''Focus'' @ []" by blast
  moreover from cleanName_first_occurrence[of "playlist_a\<lparr>name := ''Jazz''\<rparr>"] 2
  have "cleanName (playlist_a\<lparr>name := ''Jazz''\<rparr>) = name (playlist_a\<lparr>name := ''Jazz''\<rparr>)"
    by blast
  moreover from cleanName_first_occurrence[of playlist_c "''Daily''" "'' 1''"] 3
  have "cleanName playlist_c = ''Daily'' @ '' 1''" by blast
  ultimately show ?thesis by simp
qed

text \<open>
  C6, as the claim states it, fails: the name \<open>Daily Mix 1\<close> does not end in the suffix,
  yet it is not left unchanged; and the name \<open>A Mix B Mix\<close> ends in the suffix, yet the
  cleaned name is not the name without its last four characters.
\<close>

theorem cleanName_suffix_counterexample:
  "\<not> suffix '' Mix'' (name playlist_c) \<and> cleanName playlist_c = ''Daily 1'' \<and>
   cleanName playlist_c \<noteq> name playlist_c \<and>
   suffix '' Mix'' ''A Mix B Mix'' \<and>
   cleanName (playlist_c\<lparr>name := ''A Mix B Mix''\<rparr>) = ''A B Mix'' \<and>
   cleanName (playlist_c\<lparr>name := ''A Mix B Mix''\<rparr>) \<noteq> ''A Mix B''"
  by (simp add: cleanName_def playlist_c_def suffix_def)

text \<open>
  C7. For the record named \<open>Focus Mix\<close> with uri \<open>spotify:playlist:XYZ\<close> and the artists
  A, B, C, D, the status text is the cleaned name \<open>Focus\<close>, a line with the first three
  artists joined by a comma and a space, an empty line, and the URL made of the fixed
  base path and the part of the uri after its last colon.
\<close>

theorem statusText_focus_mix:
  "statusText \<lparr>name = ''Focus Mix'', uri = ''spotify:playlist:XYZ'', imageUrl = img,
                artistNames = [''A'', ''B'', ''C'', ''D''], posted_count = pc\<rparr>
   = ''Focus'' @ [CHR 0x0A] @ ''Featuring A, B, C'' @ [CHR 0x0A, CHR 0x0A]
     @ ''https://open.spotify.com/playlist/XYZ''"
  by (simp add: statusText_def cleanName_def artists_def urlFromUri_def pop_def)


end
